theory Spec2Isabelle
  imports Complex_Main
begin

section \<open>Drawing robot trajectories: the model of \<^verbatim>\<open>ver1.py\<close>\<close>

text \<open>
  The program keeps one object of class \<^verbatim>\<open>Good\<close> and draws on one image. Its numbers are
  Python floats and ints; the model takes them as real numbers, so every statement below
  is about the arithmetic the code writes down, without rounding error. The functions of
  Python's \<^verbatim>\<open>math\<close> module are taken with their mathematical meaning.
\<close>

subsection \<open>Data\<close>

type_synonym point = "real \<times> real"
type_synonym colour = "nat \<times> nat \<times> nat"
type_synonym arc = "real \<times> real"

datatype error = IndexError | TypeError | ZeroDivisionError

text \<open>
  What the drawing library is asked to do: \<^verbatim>\<open>d.arc(box, start, end, fill, width)\<close> and
  \<^verbatim>\<open>d.polygon(points, fill, outline)\<close>.
\<close>

datatype draw_cmd =
    Arc "real list" real real colour nat
  | Polygon "point list" string string

record image =
  img_size :: "nat \<times> nat"
  drawn :: "draw_cmd list"

datatype io_event = Saved string image | Shown image

text \<open>
  The attributes the constructor assigns once and no method assigns again are constants.
\<close>

definition image_size :: nat where "image_size = 3000"
definition drawing_line_width :: nat where "drawing_line_width = 6"
definition scale :: real where "scale = 1000"
definition size_multiplier :: nat where "size_multiplier = 1"
definition line_color :: colour where "line_color = (0, 0, 153)"
definition colors :: "colour list" where "colors = [(0, 0, 153), (153, 0, 0), (0, 153, 0)]"

text \<open>
  The attributes that methods assign. A point is a list \<^verbatim>\<open>[x, y]\<close>; the empty list that the
  constructor stores in \<^verbatim>\<open>starting_point\<close>, \<^verbatim>\<open>ending_point\<close> and \<^verbatim>\<open>prev_circle_center\<close> is
  \<open>None\<close>, and so is Python's \<^verbatim>\<open>None\<close> in \<^verbatim>\<open>l\<close>, \<^verbatim>\<open>radius\<close> and \<^verbatim>\<open>prev_radius\<close>.
  \<open>outputs\<close> is the world outside the object: the files saved and the images shown.
\<close>

record good =
  image :: image
  circle_center :: point
  starting_point :: "point option"
  l :: "real option"
  radius :: "real option"
  ending_point :: "point option"
  prev_circle_center :: "point option"
  prev_radius :: "real option"
  prev_was_negative_radius :: bool
  same_direction_as_previous :: bool
  negative_radius :: bool
  outputs :: "io_event list"

subsection \<open>The library functions\<close>

definition image_new :: "nat \<times> nat \<Rightarrow> image" where
  "image_new sz = \<lparr>img_size = sz, drawn = []\<rparr>"

definition resize :: "image \<Rightarrow> nat \<times> nat \<Rightarrow> image" where
  "resize im sz = im\<lparr>img_size := sz\<rparr>"

definition draw_arc :: "image \<Rightarrow> real list \<Rightarrow> real \<Rightarrow> real \<Rightarrow> colour \<Rightarrow> nat \<Rightarrow> image" where
  "draw_arc im box a b fill w = im\<lparr>drawn := drawn im @ [Arc box a b fill w]\<rparr>"

definition draw_polygon :: "image \<Rightarrow> point list \<Rightarrow> image" where
  "draw_polygon im pts = im\<lparr>drawn := drawn im @ [Polygon pts ''black'' ''black'']\<rparr>"

text \<open>\<^verbatim>\<open>math.atan2(y, x)\<close>: the angle of the point \<open>(x, y)\<close>, in \<open>(-\<pi>, \<pi>]\<close>, and 0 at the origin.\<close>

definition atan2 :: "real \<Rightarrow> real \<Rightarrow> real" where
  "atan2 y x =
     (if 0 < x then arctan (y / x)
      else if x < 0 then (if 0 \<le> y then arctan (y / x) + pi else arctan (y / x) - pi)
      else if 0 < y then pi / 2
      else if y < 0 then - (pi / 2)
      else 0)"

definition degrees :: "real \<Rightarrow> real" where
  "degrees x = x * (180 / pi)"

text \<open>Python's \<^verbatim>\<open>round\<close> of a float: the nearest integer, a tie going to the even one.\<close>

definition py_round :: "real \<Rightarrow> int" where
  "py_round x =
     (let f = \<lfloor>x\<rfloor>; d = x - of_int f
      in if d < 1 / 2 then f
         else if 1 / 2 < d then f + 1
         else if even f then f else f + 1)"

subsection \<open>The constructor and the reset\<close>

definition init :: good where
  "init =
     (let im = image_new (image_size * size_multiplier, image_size * size_multiplier)
      in \<lparr>image = im,
          circle_center = (real (fst (img_size im) div 2), real (snd (img_size im) div 2)),
          starting_point = None, l = None, radius = None, ending_point = None,
          prev_circle_center = None, prev_radius = None,
          prev_was_negative_radius = False, same_direction_as_previous = True,
          negative_radius = False, outputs = []\<rparr>)"

definition reset_image_coordinates :: "good \<Rightarrow> good" where
  "reset_image_coordinates s =
     s\<lparr>circle_center :=
         (real (fst (img_size (image s)) div 2), real (snd (img_size (image s)) div 2))\<rparr>"

subsection \<open>The solver's residuals, the ending point, the bounding box\<close>

definition find_new_circle_center :: "good \<Rightarrow> point \<Rightarrow> error + (real \<times> real)" where
  "find_new_circle_center s xy =
     (case prev_circle_center s of
        None \<Rightarrow> Inl IndexError
      | Some (Ox, Oy) \<Rightarrow>
          (case (prev_radius s, radius s) of
             (Some pr, Some r) \<Rightarrow>
               (let OO_value = (if \<not> same_direction_as_previous s then pr + r else pr - r);
                    BO_value = r
                in case starting_point s of
                     None \<Rightarrow> Inl IndexError
                   | Some (Bx, By) \<Rightarrow>
                       (let x = fst xy; y = snd xy;
                            OO_res = - OO_value\<^sup>2 + Ox\<^sup>2 - 2 * Ox * x + x\<^sup>2 + Oy\<^sup>2 - 2 * Oy * y + y\<^sup>2;
                            BO_res = - BO_value\<^sup>2 + Bx\<^sup>2 - 2 * Bx * x + x\<^sup>2 + By\<^sup>2 - 2 * By * y + y\<^sup>2
                        in Inr (OO_res, BO_res)))
           | _ \<Rightarrow> Inl TypeError))"

definition find_ending_point :: "good \<Rightarrow> real \<Rightarrow> error + point" where
  "find_ending_point s angle_rad =
     (case (l s, radius s) of
        (Some len, Some r) \<Rightarrow>
          if r = 0 then Inl ZeroDivisionError
          else
            (let angle = (if negative_radius s then angle_rad - len / r else angle_rad + len / r);
                 Bx = fst (circle_center s) + r * cos angle;
                 By = snd (circle_center s) + r * sin angle
             in Inr (Bx, By))
      | _ \<Rightarrow> Inl TypeError)"

definition find_pie_coordinates :: "real \<Rightarrow> point \<Rightarrow> real list" where
  "find_pie_coordinates circle_radius c =
     (let Ox = fst c; Oy = snd c
      in [Ox - circle_radius, Oy - circle_radius, Ox + circle_radius, Oy + circle_radius])"

subsection \<open>One round of the loop of \<^verbatim>\<open>draw_arcs\<close>\<close>

text \<open>
  The root finder \<^verbatim>\<open>fsolve\<close> is outside the program: a parameter, given the residual function
  and the first guess, and returning some point. It evaluates the residuals at the first
  guess before anything else, so an exception of the residual function comes out of it.
  Whether the residual function raises depends on the object only, not on the point, so
  \<open>residuals\<close>, the function handed over once the first guess has returned, is total.
\<close>

type_synonym solver = "(point \<Rightarrow> real \<times> real) \<Rightarrow> point \<Rightarrow> point"

definition residuals :: "good \<Rightarrow> point \<Rightarrow> real \<times> real" where
  "residuals s xy = (case find_new_circle_center s xy of Inr v \<Rightarrow> v | Inl e \<Rightarrow> (0, 0))"

text \<open>Lines 90 to 103: the scaled length and radius, the two flags, the previous circle.\<close>

definition read_arc :: "arc \<Rightarrow> good \<Rightarrow> good" where
  "read_arc a s =
     (let s1 = s\<lparr>prev_radius := radius s, l := Some (fst a * scale)\<rparr>;
          r = snd a * scale;
          s2 = (if r < 0 then s1\<lparr>negative_radius := True, radius := Some \<bar>r\<bar>\<rparr>
                else s1\<lparr>radius := Some r, negative_radius := False\<rparr>);
          s3 = (if prev_was_negative_radius s2 \<and> negative_radius s2
                   \<or> \<not> prev_was_negative_radius s2 \<and> \<not> negative_radius s2
                then s2\<lparr>same_direction_as_previous := True\<rparr>
                else s2\<lparr>same_direction_as_previous := False\<rparr>)
      in s3\<lparr>prev_circle_center := Some (circle_center s3)\<rparr>)"

text \<open>Lines 104 to 108: where the arc starts, and for a later arc its circle's centre.\<close>

definition locate_start :: "solver \<Rightarrow> nat \<Rightarrow> good \<Rightarrow> (error \<times> good) + good" where
  "locate_start fsolve i s =
     (if i = 0 then
        (case radius s of
           None \<Rightarrow> Inl (TypeError, s)
         | Some r \<Rightarrow> Inr (s\<lparr>starting_point := Some (fst (circle_center s) - r, snd (circle_center s))\<rparr>))
      else
        (let s1 = s\<lparr>starting_point := ending_point s\<rparr>
         in case find_new_circle_center s1 (0, 0) of
              Inl e \<Rightarrow> Inl (e, s1)
            | Inr v \<Rightarrow> Inr (s1\<lparr>circle_center := fsolve (residuals s1) (0, 0)\<rparr>)))"

text \<open>Lines 109 to 125: the angles, the drawing command, the ending point.\<close>

definition resolve_and_draw :: "nat \<Rightarrow> good \<Rightarrow> (error \<times> good) + good" where
  "resolve_and_draw i s =
     (case starting_point s of
        None \<Rightarrow> Inl (IndexError, s)
      | Some sp \<Rightarrow>
          (let starting_angle_rad =
                 atan2 (snd sp - snd (circle_center s)) (fst sp - fst (circle_center s));
               starting_angle_deg = of_int (py_round (degrees starting_angle_rad))
           in case (l s, radius s) of
                (Some len, Some r) \<Rightarrow>
                  if pi * r = 0 then Inl (ZeroDivisionError, s)
                  else
                    (let span = of_int \<lfloor>(180 * len) / (pi * r)\<rfloor>;
                         ending_angle_deg = span + starting_angle_deg;
                         pie_coordinates = find_pie_coordinates r (circle_center s);
                         fill = colors ! (i mod length colors);
                         s1 = (if negative_radius s then
                                 (let ending_angle_deg' = starting_angle_deg;
                                      starting_angle_deg' = ending_angle_deg' - span
                                  in s\<lparr>prev_was_negative_radius := True,
                                       image := draw_arc (image s) pie_coordinates
                                          starting_angle_deg' ending_angle_deg' fill drawing_line_width\<rparr>)
                               else
                                 s\<lparr>prev_was_negative_radius := False,
                                   image := draw_arc (image s) pie_coordinates
                                      starting_angle_deg ending_angle_deg fill drawing_line_width\<rparr>)
                     in case find_ending_point s1 starting_angle_rad of
                          Inl e \<Rightarrow> Inl (e, s1)
                        | Inr p \<Rightarrow> Inr (s1\<lparr>ending_point := Some p\<rparr>))
              | _ \<Rightarrow> Inl (TypeError, s)))"

definition arc_body :: "solver \<Rightarrow> nat \<Rightarrow> arc \<Rightarrow> good \<Rightarrow> (error \<times> good) + good" where
  "arc_body fsolve i a s =
     (case locate_start fsolve i (read_arc a s) of
        Inl e \<Rightarrow> Inl e
      | Inr s1 \<Rightarrow> resolve_and_draw i s1)"

subsection \<open>\<^verbatim>\<open>draw_arcs\<close>\<close>

text \<open>
  An exception ends the loop and the call; the object keeps what was assigned before it,
  so the error comes with the state it leaves.
\<close>

fun arcs_loop :: "solver \<Rightarrow> nat \<Rightarrow> arc list \<Rightarrow> good \<Rightarrow> (error \<times> good) + good" where
  "arcs_loop fsolve i [] s = Inr s"
| "arcs_loop fsolve i (a # as) s =
     (case arc_body fsolve i a s of
        Inl e \<Rightarrow> Inl e
      | Inr s1 \<Rightarrow> arcs_loop fsolve (Suc i) as s1)"

definition draw_arcs :: "solver \<Rightarrow> arc list \<Rightarrow> good \<Rightarrow> (error \<times> good) + good" where
  "draw_arcs fsolve data s =
     (case arcs_loop fsolve 0 data s of
        Inl e \<Rightarrow> Inl e
      | Inr s1 \<Rightarrow>
          (let im = resize (image s1) (image_size * size_multiplier, image_size * size_multiplier);
               s2 = s1\<lparr>image := im\<rparr>
           in Inr (s2\<lparr>outputs := outputs s2 @ [Saved ''drawn_arcs.png'' im, Shown im]\<rparr>)))"

text \<open>
  The object as each round of the loop leaves it, in order; a round that raises leaves
  the last entry.
\<close>

fun arc_states :: "solver \<Rightarrow> nat \<Rightarrow> arc list \<Rightarrow> good \<Rightarrow> good list" where
  "arc_states fsolve i [] s = []"
| "arc_states fsolve i (a # as) s =
     (case arc_body fsolve i a s of
        Inl e \<Rightarrow> [snd e]
      | Inr s1 \<Rightarrow> s1 # arc_states fsolve (Suc i) as s1)"

text \<open>The object as a call leaves it, returned or raised.\<close>

definition left_by :: "(error \<times> good) + good \<Rightarrow> good" where
  "left_by r = (case r of Inl e \<Rightarrow> snd e | Inr s \<Rightarrow> s)"

subsection \<open>\<^verbatim>\<open>draw_polygons\<close>\<close>

definition resized_polygon :: "point list \<Rightarrow> point list" where
  "resized_polygon polygon = map (\<lambda>polygon_coord. (fst polygon_coord * scale, snd polygon_coord * scale)) polygon"

text \<open>Lines 144 to 146: \<^verbatim>\<open>pop(-1)\<close> when the first point equals the last.\<close>

definition drop_closing_point :: "point list \<Rightarrow> point list" where
  "drop_closing_point ps =
     (if 1 < length ps then (if hd ps = last ps then butlast ps else ps) else ps)"

definition fill_points :: "point list \<Rightarrow> point list" where
  "fill_points polygon = drop_closing_point (resized_polygon polygon)"

definition draw_polygons :: "point list list \<Rightarrow> good \<Rightarrow> good" where
  "draw_polygons data s =
     (let s1 = s\<lparr>image := foldl (\<lambda>im polygon. draw_polygon im (fill_points polygon)) (image s) data\<rparr>;
          im = resize (image s1) (image_size * size_multiplier, image_size * size_multiplier)
      in s1\<lparr>outputs := outputs s1 @ [Saved ''drawn_polygons.png'' im, Shown im]\<rparr>)"

text \<open>The distance of two points, for the statements about the solver's roots.\<close>

definition distance :: "point \<Rightarrow> point \<Rightarrow> real" where
  "distance p q = sqrt ((fst p - fst q)\<^sup>2 + (snd p - snd q)\<^sup>2)"

section \<open>Properties\<close>

subsection \<open>Polygons\<close>

lemma foldl_draw_polygon:
  "drawn (foldl (\<lambda>im polygon. draw_polygon im (fill_points polygon)) im data) =
     drawn im @ map (\<lambda>polygon. Polygon (fill_points polygon) ''black'' ''black'') data"
  by (induction data arbitrary: im) (simp_all add: draw_polygon_def)

lemma draw_polygons_drawn:
  "drawn (image (draw_polygons data s)) =
     drawn (image s) @ map (\<lambda>polygon. Polygon (fill_points polygon) ''black'' ''black'') data"
  by (simp add: draw_polygons_def Let_def foldl_draw_polygon)

lemma fill_points_closed:
  assumes "2 \<le> length polygon"
      and "hd (resized_polygon polygon) = last (resized_polygon polygon)"
  shows "fill_points polygon = resized_polygon (butlast polygon)"
  using assms by (simp add: fill_points_def drop_closing_point_def resized_polygon_def map_butlast)

lemma drawn_init: "drawn (image init) = []"
  by (simp add: init_def image_new_def Let_def)

text \<open>
  C7, as the code has it. A polygon of at least two points whose scaled first point equals
  its scaled last point is filled with its scaled points without the last one: one point is
  dropped, once. That is the list of the same polygon with the duplicate already removed
  whenever the shorter polygon does not again end in its first point; and the polygon
  \<open>[(0,0),(1,0),(1,1),(0,0)]\<close> is filled with \<open>(0,0),(1000,0),(1000,1000)\<close>.
\<close>

theorem closed_polygon_fill:
  assumes "2 \<le> length polygon"
      and "hd (resized_polygon polygon) = last (resized_polygon polygon)"
  shows "drawn (image (draw_polygons [polygon] s)) =
           drawn (image s) @ [Polygon (resized_polygon (butlast polygon)) ''black'' ''black'']
         \<and> (\<not> (1 < length (butlast polygon)
               \<and> hd (resized_polygon (butlast polygon)) = last (resized_polygon (butlast polygon)))
            \<longrightarrow> drawn (image (draw_polygons [polygon] s)) = drawn (image (draw_polygons [butlast polygon] s)))
         \<and> fill_points [(0, 0), (1, 0), (1, 1), (0, 0)] = [(0, 0), (1000, 0), (1000, 1000)]"
proof -
  have a: "fill_points polygon = resized_polygon (butlast polygon)"
    using assms by (rule fill_points_closed)
  have b: "fill_points (butlast polygon) = resized_polygon (butlast polygon)"
    if "\<not> (1 < length (butlast polygon)
          \<and> hd (resized_polygon (butlast polygon)) = last (resized_polygon (butlast polygon)))"
    using that by (auto simp: fill_points_def drop_closing_point_def resized_polygon_def)
  have c: "fill_points [(0, 0), (1, 0), (1, 1), (0, 0)] = [(0, 0), (1000, 0), (1000, 1000)]"
    by (simp add: fill_points_def drop_closing_point_def resized_polygon_def scale_def)
  show ?thesis using a b c by (simp add: draw_polygons_drawn)
qed

theorem closed_polygon_fill_witness:
  "2 \<le> length [(0, 0), (1, 0), (1, 1), (0::real, 0::real)]
   \<and> hd (resized_polygon [(0, 0), (1, 0), (1, 1), (0, 0)]) = last (resized_polygon [(0, 0), (1, 0), (1, 1), (0, 0)])
   \<and> drawn (image (draw_polygons [[(0, 0), (1, 0), (1, 1), (0, 0)]] init)) =
        [Polygon [(0, 0), (1000, 0), (1000, 1000)] ''black'' ''black'']
   \<and> drawn (image (draw_polygons [[(0, 0), (1, 0), (1, 1), (0, 0)]] init)) =
       drawn (image (draw_polygons [[(0, 0), (1, 0), (1, 1)]] init))"
proof -
  have h1: "2 \<le> length [(0, 0), (1, 0), (1, 1), (0::real, 0::real)]" by simp
  have h2: "hd (resized_polygon [(0, 0), (1, 0), (1, 1), (0, 0)]) = last (resized_polygon [(0, 0), (1, 0), (1, 1), (0, 0)])"
    by (simp add: resized_polygon_def)
  show ?thesis
    using closed_polygon_fill [OF h1 h2, of init] h1 h2 drawn_init
    by (auto simp: resized_polygon_def scale_def)
qed

text \<open>
  C7, as the claim states it, fails where the polygon without its last point is closed
  again: \<open>[(0,0),(1,0),(0,0),(0,0)]\<close> is filled with three points, and the same polygon
  with the duplicate already removed, \<open>[(0,0),(1,0),(0,0)]\<close>, with two.
\<close>

theorem closed_polygon_fill_counterexample:
  "2 \<le> length [(0, 0), (1, 0), (0, 0), (0::real, 0::real)]
   \<and> hd (resized_polygon [(0, 0), (1, 0), (0, 0), (0, 0)]) = last (resized_polygon [(0, 0), (1, 0), (0, 0), (0, 0)])
   \<and> fill_points [(0, 0), (1, 0), (0, 0), (0, 0)] = [(0, 0), (1000, 0), (0, 0)]
   \<and> fill_points (butlast [(0, 0), (1, 0), (0, 0), (0, 0)]) = [(0, 0), (1000, 0)]
   \<and> drawn (image (draw_polygons [[(0, 0), (1, 0), (0, 0), (0, 0)]] init))
       \<noteq> drawn (image (draw_polygons [butlast [(0, 0), (1, 0), (0, 0), (0, 0)]] init))"
  by (simp add: draw_polygons_drawn fill_points_def drop_closing_point_def resized_polygon_def scale_def)



subsection \<open>The empty chain\<close>

text \<open>
  C10. \<^verbatim>\<open>draw_arcs\<close> of the empty list returns, draws nothing and leaves every attribute of
  the chain as it was; the image is resized to the canvas size, saved as
  \<^verbatim>\<open>drawn_arcs.png\<close> and shown.
\<close>

theorem draw_arcs_empty:
  "\<exists>s'. draw_arcs fsolve [] s = Inr s'
        \<and> drawn (image s') = drawn (image s)
        \<and> circle_center s' = circle_center s
        \<and> starting_point s' = starting_point s
        \<and> ending_point s' = ending_point s
        \<and> radius s' = radius s
        \<and> l s' = l s
        \<and> prev_circle_center s' = prev_circle_center s
        \<and> prev_radius s' = prev_radius s
        \<and> prev_was_negative_radius s' = prev_was_negative_radius s
        \<and> same_direction_as_previous s' = same_direction_as_previous s
        \<and> negative_radius s' = negative_radius s
        \<and> img_size (image s') = (image_size * size_multiplier, image_size * size_multiplier)
        \<and> outputs s' = outputs s @ [Saved ''drawn_arcs.png'' (image s'), Shown (image s')]"
  by (simp add: draw_arcs_def Let_def resize_def)

subsection \<open>One round of the loop, phase by phase\<close>

lemma read_arc_fields:
  "radius (read_arc a s) = Some \<bar>snd a * scale\<bar>"
  "l (read_arc a s) = Some (fst a * scale)"
  "negative_radius (read_arc a s) = (snd a * scale < 0)"
  "same_direction_as_previous (read_arc a s) = (prev_was_negative_radius s = (snd a * scale < 0))"
  "prev_radius (read_arc a s) = radius s"
  "prev_circle_center (read_arc a s) = Some (circle_center s)"
  "circle_center (read_arc a s) = circle_center s"
  "ending_point (read_arc a s) = ending_point s"
  "starting_point (read_arc a s) = starting_point s"
  "prev_was_negative_radius (read_arc a s) = prev_was_negative_radius s"
  "image (read_arc a s) = image s"
  "outputs (read_arc a s) = outputs s"
  by (auto simp: read_arc_def Let_def)

lemma locate_start_first:
  "locate_start fsolve 0 (read_arc a s) =
     Inr ((read_arc a s)\<lparr>starting_point :=
            Some (fst (circle_center s) - \<bar>snd a * scale\<bar>, snd (circle_center s))\<rparr>)"
  by (simp add: locate_start_def read_arc_fields)

lemma find_new_circle_center_total:
  assumes "prev_circle_center s = Some c" "prev_radius s = Some pr" "radius s = Some r"
      and "starting_point s = Some b"
  shows "find_new_circle_center s xy =
           Inr (- (if \<not> same_direction_as_previous s then pr + r else pr - r)\<^sup>2
                  + (fst c)\<^sup>2 - 2 * fst c * fst xy + (fst xy)\<^sup>2 + (snd c)\<^sup>2 - 2 * snd c * snd xy + (snd xy)\<^sup>2,
                - r\<^sup>2 + (fst b)\<^sup>2 - 2 * fst b * fst xy + (fst xy)\<^sup>2 + (snd b)\<^sup>2 - 2 * snd b * snd xy + (snd xy)\<^sup>2)"
  using assms by (cases c; cases b) (simp add: find_new_circle_center_def Let_def)

lemma find_new_circle_center_raises_alike:
  "find_new_circle_center s xy = Inl e \<longleftrightarrow> find_new_circle_center s xy' = Inl e"
  by (auto simp: find_new_circle_center_def Let_def split: option.splits prod.splits)

lemma locate_start_later:
  assumes "i \<noteq> 0" "radius s = Some rp" "ending_point s = Some b"
  shows "locate_start fsolve i (read_arc a s) =
     Inr ((read_arc a s)\<lparr>starting_point := Some b,
            circle_center := fsolve (residuals ((read_arc a s)\<lparr>starting_point := Some b\<rparr>)) (0, 0)\<rparr>)"
proof -
  let ?s1 = "(read_arc a s)\<lparr>starting_point := Some b\<rparr>"
  have "\<exists>v. find_new_circle_center ?s1 (0, 0) = Inr v"
    using find_new_circle_center_total [of ?s1 "circle_center s" rp "\<bar>snd a * scale\<bar>" b "(0, 0)"] assms
    by (simp add: read_arc_fields)
  then show ?thesis
    using assms by (auto simp: locate_start_def read_arc_fields Let_def)
qed

lemma resolve_and_draw_zero:
  assumes "starting_point s = Some sp" "l s = Some len" "radius s = Some 0"
  shows "resolve_and_draw i s = Inl (ZeroDivisionError, s)"
  using assms by (simp add: resolve_and_draw_def Let_def)

lemma resolve_and_draw_ok:
  assumes "starting_point s = Some sp" "l s = Some len" "radius s = Some r" "r \<noteq> 0"
  shows "resolve_and_draw i s =
     Inr (s\<lparr>prev_was_negative_radius := negative_radius s,
            image := draw_arc (image s) (find_pie_coordinates r (circle_center s))
              (if negative_radius s
               then of_int (py_round (degrees (atan2 (snd sp - snd (circle_center s)) (fst sp - fst (circle_center s)))))
                      - of_int \<lfloor>(180 * len) / (pi * r)\<rfloor>
               else of_int (py_round (degrees (atan2 (snd sp - snd (circle_center s)) (fst sp - fst (circle_center s))))))
              (if negative_radius s
               then of_int (py_round (degrees (atan2 (snd sp - snd (circle_center s)) (fst sp - fst (circle_center s)))))
               else of_int \<lfloor>(180 * len) / (pi * r)\<rfloor>
                      + of_int (py_round (degrees (atan2 (snd sp - snd (circle_center s)) (fst sp - fst (circle_center s))))))
              (colors ! (i mod length colors)) drawing_line_width,
            ending_point := Some
              (fst (circle_center s) + r * cos
                 (if negative_radius s
                  then atan2 (snd sp - snd (circle_center s)) (fst sp - fst (circle_center s)) - len / r
                  else atan2 (snd sp - snd (circle_center s)) (fst sp - fst (circle_center s)) + len / r),
               snd (circle_center s) + r * sin
                 (if negative_radius s
                  then atan2 (snd sp - snd (circle_center s)) (fst sp - fst (circle_center s)) - len / r
                  else atan2 (snd sp - snd (circle_center s)) (fst sp - fst (circle_center s)) + len / r))\<rparr>)"
  using assms by (simp add: resolve_and_draw_def find_ending_point_def Let_def)

lemma locate_start_ok:
  assumes "i = 0 \<or> (radius s \<noteq> None \<and> ending_point s \<noteq> None)"
  shows "\<exists>t sp. locate_start fsolve i (read_arc a s) = Inr t
           \<and> starting_point t = Some sp
           \<and> (if i = 0 then sp = (fst (circle_center s) - \<bar>snd a * scale\<bar>, snd (circle_center s))
                           \<and> circle_center t = circle_center s
               else ending_point s = Some sp)
           \<and> radius t = Some \<bar>snd a * scale\<bar>
           \<and> l t = Some (fst a * scale)
           \<and> negative_radius t = (snd a * scale < 0)
           \<and> image t = image s \<and> outputs t = outputs s"
proof (cases "i = 0")
  case True
  then show ?thesis by (simp add: locate_start_first read_arc_fields)
next
  case False
  with assms obtain rp b where "radius s = Some rp" "ending_point s = Some b" by auto
  with False show ?thesis by (simp add: locate_start_later read_arc_fields)
qed

text \<open>
  A round with a radius that is not zero returns, at the first arc from any state and at a
  later arc from a state a round has left; this is all it assigns and draws.
\<close>

lemma arc_body_ok:
  assumes "snd a \<noteq> 0" and "i = 0 \<or> (radius s \<noteq> None \<and> ending_point s \<noteq> None)"
  shows "\<exists>s' sp. arc_body fsolve i a s = Inr s'
           \<and> starting_point s' = Some sp
           \<and> (if i = 0 then sp = (fst (circle_center s) - \<bar>snd a * scale\<bar>, snd (circle_center s))
                           \<and> circle_center s' = circle_center s
               else ending_point s = Some sp)
           \<and> radius s' = Some \<bar>snd a * scale\<bar>
           \<and> l s' = Some (fst a * scale)
           \<and> negative_radius s' = (snd a < 0)
           \<and> prev_was_negative_radius s' = (snd a < 0)
           \<and> outputs s' = outputs s
           \<and> img_size (image s') = img_size (image s)
           \<and> drawn (image s') = drawn (image s) @
               [Arc (find_pie_coordinates \<bar>snd a * scale\<bar> (circle_center s'))
                  (if snd a < 0
                   then of_int (py_round (degrees (atan2 (snd sp - snd (circle_center s')) (fst sp - fst (circle_center s')))))
                          - of_int \<lfloor>(180 * (fst a * scale)) / (pi * \<bar>snd a * scale\<bar>)\<rfloor>
                   else of_int (py_round (degrees (atan2 (snd sp - snd (circle_center s')) (fst sp - fst (circle_center s'))))))
                  (if snd a < 0
                   then of_int (py_round (degrees (atan2 (snd sp - snd (circle_center s')) (fst sp - fst (circle_center s')))))
                   else of_int \<lfloor>(180 * (fst a * scale)) / (pi * \<bar>snd a * scale\<bar>)\<rfloor>
                          + of_int (py_round (degrees (atan2 (snd sp - snd (circle_center s')) (fst sp - fst (circle_center s'))))))
                  (colors ! (i mod length colors)) drawing_line_width]
           \<and> ending_point s' = Some
               (fst (circle_center s') + \<bar>snd a * scale\<bar> * cos
                  (if snd a < 0
                   then atan2 (snd sp - snd (circle_center s')) (fst sp - fst (circle_center s')) - fst a * scale / \<bar>snd a * scale\<bar>
                   else atan2 (snd sp - snd (circle_center s')) (fst sp - fst (circle_center s')) + fst a * scale / \<bar>snd a * scale\<bar>),
                snd (circle_center s') + \<bar>snd a * scale\<bar> * sin
                  (if snd a < 0
                   then atan2 (snd sp - snd (circle_center s')) (fst sp - fst (circle_center s')) - fst a * scale / \<bar>snd a * scale\<bar>
                   else atan2 (snd sp - snd (circle_center s')) (fst sp - fst (circle_center s')) + fst a * scale / \<bar>snd a * scale\<bar>))"
proof -
  obtain t sp where t: "locate_start fsolve i (read_arc a s) = Inr t"
      "starting_point t = Some sp"
      "if i = 0 then sp = (fst (circle_center s) - \<bar>snd a * scale\<bar>, snd (circle_center s))
                           \<and> circle_center t = circle_center s
               else ending_point s = Some sp"
      "radius t = Some \<bar>snd a * scale\<bar>" "l t = Some (fst a * scale)"
      "negative_radius t = (snd a * scale < 0)" "image t = image s" "outputs t = outputs s"
    using locate_start_ok [OF assms(2), of fsolve a] by blast
  have nz: "\<bar>snd a * scale\<bar> \<noteq> 0" using assms(1) by (simp add: scale_def)
  have neg: "(snd a * scale < 0) = (snd a < 0)" by (simp add: scale_def mult_less_0_iff)
  have "arc_body fsolve i a s = resolve_and_draw i t"
    by (simp add: arc_body_def t(1))
  also note resolve_and_draw_ok [OF t(2) t(5) t(4) nz, of i]
  finally obtain s' where s': "arc_body fsolve i a s = Inr s'"
    and fields: "starting_point s' = starting_point t" "circle_center s' = circle_center t"
      "radius s' = radius t" "l s' = l t" "negative_radius s' = negative_radius t"
      "prev_was_negative_radius s' = negative_radius t" "outputs s' = outputs t"
      "img_size (image s') = img_size (image t)"
    and drawn': "drawn (image s') = drawn (image t) @
         [Arc (find_pie_coordinates \<bar>snd a * scale\<bar> (circle_center t))
              (if negative_radius t
               then of_int (py_round (degrees (atan2 (snd sp - snd (circle_center t)) (fst sp - fst (circle_center t)))))
                      - of_int \<lfloor>(180 * (fst a * scale)) / (pi * \<bar>snd a * scale\<bar>)\<rfloor>
               else of_int (py_round (degrees (atan2 (snd sp - snd (circle_center t)) (fst sp - fst (circle_center t))))))
              (if negative_radius t
               then of_int (py_round (degrees (atan2 (snd sp - snd (circle_center t)) (fst sp - fst (circle_center t)))))
               else of_int \<lfloor>(180 * (fst a * scale)) / (pi * \<bar>snd a * scale\<bar>)\<rfloor>
                      + of_int (py_round (degrees (atan2 (snd sp - snd (circle_center t)) (fst sp - fst (circle_center t))))))
              (colors ! (i mod length colors)) drawing_line_width]"
    and ending': "ending_point s' = Some
              (fst (circle_center t) + \<bar>snd a * scale\<bar> * cos
                 (if negative_radius t
                  then atan2 (snd sp - snd (circle_center t)) (fst sp - fst (circle_center t)) - fst a * scale / \<bar>snd a * scale\<bar>
                  else atan2 (snd sp - snd (circle_center t)) (fst sp - fst (circle_center t)) + fst a * scale / \<bar>snd a * scale\<bar>),
               snd (circle_center t) + \<bar>snd a * scale\<bar> * sin
                 (if negative_radius t
                  then atan2 (snd sp - snd (circle_center t)) (fst sp - fst (circle_center t)) - fst a * scale / \<bar>snd a * scale\<bar>
                  else atan2 (snd sp - snd (circle_center t)) (fst sp - fst (circle_center t)) + fst a * scale / \<bar>snd a * scale\<bar>))"
    by (simp add: draw_arc_def)
  have tneg: "negative_radius t = (snd a < 0)" using t(6) neg by simp
  have geom: "if i = 0 then sp = (fst (circle_center s) - \<bar>snd a * scale\<bar>, snd (circle_center s))
                           \<and> circle_center s' = circle_center s
               else ending_point s = Some sp"
    using t(3) fields(2) by (simp split: if_splits)
  show ?thesis
    apply (rule exI [of _ s'], rule exI [of _ sp])
    apply (intro conjI)
    apply (rule s')
    apply (simp only: fields t(2))
    apply (rule geom)
    apply (simp only: fields t(4))
    apply (simp only: fields t(5))
    apply (simp only: fields tneg)
    apply (simp only: fields tneg)
    apply (simp only: fields t(8))
    apply (simp only: fields t(7))
    apply (simp only: drawn' fields tneg t(7))
    apply (simp only: ending' fields tneg)
    done
qed

lemma neg_scaled: "(snd a * scale < 0) = (snd (a::arc) < 0)"
  by (simp add: scale_def mult_less_0_iff)

lemma left_by_simps [simp]: "left_by (Inl (e, s)) = s" "left_by (Inr s) = s"
  by (simp_all add: left_by_def)

lemma resolve_and_draw_keeps:
  "starting_point (left_by (resolve_and_draw i s)) = starting_point s"
  "circle_center (left_by (resolve_and_draw i s)) = circle_center s"
  "img_size (image (left_by (resolve_and_draw i s))) = img_size (image s)"
  by (auto simp: resolve_and_draw_def find_ending_point_def draw_arc_def Let_def
           split: option.splits)

lemma locate_start_later_start:
  "i \<noteq> 0 \<Longrightarrow> starting_point (left_by (locate_start fsolve i t)) = ending_point t"
  by (auto simp: locate_start_def Let_def split: sum.splits)

lemma locate_start_image:
  "img_size (image (left_by (locate_start fsolve i t))) = img_size (image t)"
  by (auto simp: locate_start_def Let_def split: sum.splits option.splits)

lemma left_by_arc_body:
  "left_by (arc_body fsolve i a s) =
     (case locate_start fsolve i (read_arc a s) of
        Inl e \<Rightarrow> snd e
      | Inr t \<Rightarrow> left_by (resolve_and_draw i t))"
  by (simp add: arc_body_def left_by_def split: sum.splits)

lemma arc_body_start:
  assumes "i \<noteq> 0"
  shows "starting_point (left_by (arc_body fsolve i a s)) = ending_point s"
proof -
  have "starting_point (left_by (locate_start fsolve i (read_arc a s))) = ending_point s"
    using assms by (simp add: locate_start_later_start read_arc_fields)
  then show ?thesis
    by (cases "locate_start fsolve i (read_arc a s)")
       (auto simp: left_by_arc_body resolve_and_draw_keeps)
qed

lemma arc_body_img_size:
  "img_size (image (left_by (arc_body fsolve i a s))) = img_size (image s)"
proof -
  have "img_size (image (left_by (locate_start fsolve i (read_arc a s)))) = img_size (image s)"
    by (simp add: locate_start_image read_arc_fields)
  then show ?thesis
    by (cases "locate_start fsolve i (read_arc a s)")
       (auto simp: left_by_arc_body resolve_and_draw_keeps)
qed

lemma arc_body_first:
  "starting_point (left_by (arc_body fsolve 0 a s)) =
     Some (fst (circle_center s) - \<bar>snd a * scale\<bar>, snd (circle_center s))
   \<and> circle_center (left_by (arc_body fsolve 0 a s)) = circle_center s"
  by (simp add: left_by_arc_body locate_start_first resolve_and_draw_keeps read_arc_fields)

lemma arc_body_first_eq:
  "arc_body fsolve 0 a s =
     resolve_and_draw 0 ((read_arc a s)\<lparr>starting_point :=
            Some (fst (circle_center s) - \<bar>snd a * scale\<bar>, snd (circle_center s))\<rparr>)"
  by (simp add: arc_body_def locate_start_first)

lemma arc_body_zero:
  assumes "snd a = 0" and "i = 0 \<or> (radius s \<noteq> None \<and> ending_point s \<noteq> None)"
  shows "\<exists>t. arc_body fsolve i a s = Inl (ZeroDivisionError, t)
            \<and> image t = image s \<and> outputs t = outputs s"
proof -
  obtain t sp where t: "locate_start fsolve i (read_arc a s) = Inr t"
      "starting_point t = Some sp"
      "radius t = Some \<bar>snd a * scale\<bar>" "l t = Some (fst a * scale)"
      "image t = image s" "outputs t = outputs s"
    using locate_start_ok [OF assms(2), of fsolve a] by blast
  have "radius t = Some 0" using t(3) assms(1) by simp
  from resolve_and_draw_zero [OF t(2) t(4) this, of i] t show ?thesis
    by (simp add: arc_body_def)
qed

lemma circle_center_init: "circle_center init = (1500, 1500)"
  by (simp add: init_def Let_def image_new_def image_size_def size_multiplier_def)

subsection \<open>The angles and the ending point\<close>

lemma atan2_left: "x < 0 \<Longrightarrow> atan2 0 x = pi"
  by (simp add: atan2_def)

lemma start_angle_180: "py_round (degrees pi) = 180"
  by (simp add: degrees_def py_round_def Let_def)

lemma first_arc_of_length_zero:
  "\<exists>t. arc_body fsolve 0 (0, 1 / 100) init = Inr t
       \<and> circle_center t = (1500, 1500)
       \<and> starting_point t = Some (1490, 1500)
       \<and> ending_point t = Some (1490, 1500)"
proof -
  have h1: "snd (0 :: real, 1 / 100 :: real) \<noteq> 0" by simp
  have h2: "(0::nat) = 0 \<or> (radius init \<noteq> None \<and> ending_point init \<noteq> None)" by simp
  obtain t sp where t: "arc_body fsolve 0 (0, 1 / 100) init = Inr t"
      "starting_point t = Some sp"
      "if (0::nat) = 0 then sp = (fst (circle_center init) - \<bar>snd (0 :: real, 1 / 100 :: real) * scale\<bar>, snd (circle_center init))
                           \<and> circle_center t = circle_center init
               else ending_point init = Some sp"
      "ending_point t = Some
               (fst (circle_center t) + \<bar>snd (0 :: real, 1 / 100 :: real) * scale\<bar> * cos
                  (if snd (0 :: real, 1 / 100 :: real) < 0
                   then atan2 (snd sp - snd (circle_center t)) (fst sp - fst (circle_center t)) - fst (0 :: real, 1 / 100 :: real) * scale / \<bar>snd (0 :: real, 1 / 100 :: real) * scale\<bar>
                   else atan2 (snd sp - snd (circle_center t)) (fst sp - fst (circle_center t)) + fst (0 :: real, 1 / 100 :: real) * scale / \<bar>snd (0 :: real, 1 / 100 :: real) * scale\<bar>),
                snd (circle_center t) + \<bar>snd (0 :: real, 1 / 100 :: real) * scale\<bar> * sin
                  (if snd (0 :: real, 1 / 100 :: real) < 0
                   then atan2 (snd sp - snd (circle_center t)) (fst sp - fst (circle_center t)) - fst (0 :: real, 1 / 100 :: real) * scale / \<bar>snd (0 :: real, 1 / 100 :: real) * scale\<bar>
                   else atan2 (snd sp - snd (circle_center t)) (fst sp - fst (circle_center t)) + fst (0 :: real, 1 / 100 :: real) * scale / \<bar>snd (0 :: real, 1 / 100 :: real) * scale\<bar>))"
    using arc_body_ok [OF h1 h2, of fsolve] by blast
  have sp: "sp = (1490, 1500)" and c: "circle_center t = (1500, 1500)"
    using t(3) by (simp_all add: circle_center_init scale_def)
  have "ending_point t = Some (1490, 1500)"
    using t(4) unfolding sp c by (simp add: atan2_left scale_def)
  with t(1,2) sp c show ?thesis by blast
qed

text \<open>
  C3. An arc with a radius that is not zero is drawn: its round returns, the radius kept is
  positive, and with \<open>\<theta>\<close> the rounded degrees of the angle of the starting point seen
  from the circle's centre and \<open>span\<close> the floor of \<open>180 * length / (\<pi> * radius)\<close>, the
  drawing command gets \<open>(\<theta>, \<theta> + span)\<close> for a turn that is not negative and
  \<open>(\<theta> - span, \<theta>)\<close> for a negative one; the end minus the start is \<open>span\<close> in both.
\<close>

theorem arc_angles:
  assumes "snd a \<noteq> 0" and "i = 0 \<or> (radius s \<noteq> None \<and> ending_point s \<noteq> None)"
  shows "\<exists>s' sx sy cx cy r len \<theta> span.
           arc_body fsolve i a s = Inr s'
         \<and> starting_point s' = Some (sx, sy) \<and> circle_center s' = (cx, cy)
         \<and> radius s' = Some r \<and> 0 < r \<and> r = \<bar>snd a * scale\<bar>
         \<and> l s' = Some len \<and> len = fst a * scale
         \<and> negative_radius s' = (snd a < 0)
         \<and> \<theta> = of_int (py_round (degrees (atan2 (sy - cy) (sx - cx))))
         \<and> span = of_int \<lfloor>180 * len / (pi * r)\<rfloor>
         \<and> drawn (image s') = drawn (image s) @
              [Arc [cx - r, cy - r, cx + r, cy + r]
                   (if negative_radius s' then \<theta> - span else \<theta>)
                   (if negative_radius s' then \<theta> else \<theta> + span)
                   (colors ! (i mod 3)) 6]
         \<and> (if negative_radius s' then \<theta> else \<theta> + span)
             - (if negative_radius s' then \<theta> - span else \<theta>) = span"
proof -
  obtain s' sp where s': "arc_body fsolve i a s = Inr s'" "starting_point s' = Some sp"
     "radius s' = Some \<bar>snd a * scale\<bar>" "l s' = Some (fst a * scale)"
     "negative_radius s' = (snd a < 0)"
     "drawn (image s') = drawn (image s) @
               [Arc (find_pie_coordinates \<bar>snd a * scale\<bar> (circle_center s'))
                  (if snd a < 0
                   then of_int (py_round (degrees (atan2 (snd sp - snd (circle_center s')) (fst sp - fst (circle_center s')))))
                          - of_int \<lfloor>(180 * (fst a * scale)) / (pi * \<bar>snd a * scale\<bar>)\<rfloor>
                   else of_int (py_round (degrees (atan2 (snd sp - snd (circle_center s')) (fst sp - fst (circle_center s'))))))
                  (if snd a < 0
                   then of_int (py_round (degrees (atan2 (snd sp - snd (circle_center s')) (fst sp - fst (circle_center s')))))
                   else of_int \<lfloor>(180 * (fst a * scale)) / (pi * \<bar>snd a * scale\<bar>)\<rfloor>
                          + of_int (py_round (degrees (atan2 (snd sp - snd (circle_center s')) (fst sp - fst (circle_center s'))))))
                  (colors ! (i mod length colors)) drawing_line_width]"
    using arc_body_ok [OF assms, of fsolve] by blast
  have pos: "0 < \<bar>snd a * scale\<bar>" using assms(1) by (simp add: scale_def)
  show ?thesis
    apply (rule exI [of _ s'])
    apply (rule exI [of _ "fst sp"], rule exI [of _ "snd sp"])
    apply (rule exI [of _ "fst (circle_center s')"], rule exI [of _ "snd (circle_center s')"])
    apply (rule exI [of _ "\<bar>snd a * scale\<bar>"], rule exI [of _ "fst a * scale"])
    apply (rule exI [of _ "of_int (py_round (degrees (atan2 (snd sp - snd (circle_center s')) (fst sp - fst (circle_center s')))))"])
    apply (rule exI [of _ "of_int \<lfloor>180 * (fst a * scale) / (pi * \<bar>snd a * scale\<bar>)\<rfloor>"])
    using s' pos
    apply (simp add: find_pie_coordinates_def colors_def drawing_line_width_def Let_def)
    done
qed

theorem arc_angles_witness:
  "snd (1 / 2 :: real, - (1 / 50) :: real) \<noteq> 0
   \<and> ((0::nat) = 0 \<or> (radius init \<noteq> None \<and> ending_point init \<noteq> None))
   \<and> (\<exists>s' \<theta> span. arc_body (\<lambda>f g. g) 0 (1 / 2, - (1 / 50)) init = Inr s'
         \<and> negative_radius s' \<and> radius s' = Some 20
         \<and> drawn (image s') = [Arc [1480, 1480, 1520, 1520] (\<theta> - span) \<theta> (0, 0, 153) 6])"
proof -
  have h1: "snd (1 / 2 :: real, - (1 / 50) :: real) \<noteq> 0" by simp
  have h2: "(0::nat) = 0 \<or> (radius init \<noteq> None \<and> ending_point init \<noteq> None)" by simp
  have c: "arc_body (\<lambda>f g. g) 0 (1 / 2, - (1 / 50)) init = Inr s' \<Longrightarrow> circle_center s' = (1500, 1500)" for s'
    using arc_body_first [of "\<lambda>f g. g" "(1 / 2, - (1 / 50))" init] by (simp add: circle_center_init)
  from arc_angles [OF h1 h2, of "\<lambda>f g. g"] c h1 h2 show ?thesis
    by (fastforce simp: scale_def drawn_init colors_def)
qed



subsection \<open>The chain\<close>

lemma arc_states_Cons:
  "arc_states fsolve i (a # as) s =
     left_by (arc_body fsolve i a s) #
       (case arc_body fsolve i a s of Inl e \<Rightarrow> [] | Inr s1 \<Rightarrow> arc_states fsolve (Suc i) as s1)"
  by (simp add: left_by_def split: sum.splits)

lemma arc_states_hd_start:
  assumes "i \<noteq> 0" "arc_states fsolve i data s \<noteq> []"
  shows "starting_point (hd (arc_states fsolve i data s)) = ending_point s"
proof (cases data)
  case Nil
  with assms show ?thesis by simp
next
  case (Cons a as)
  then have "hd (arc_states fsolve i data s) = left_by (arc_body fsolve i a s)"
    by (simp only: arc_states_Cons list.sel)
  with assms(1) show ?thesis by (simp add: arc_body_start)
qed

lemma arc_states_chain:
  "Suc k < length (arc_states fsolve i data s) \<Longrightarrow>
     starting_point (arc_states fsolve i data s ! Suc k) = ending_point (arc_states fsolve i data s ! k)"
proof (induction data arbitrary: i s k)
  case Nil
  then show ?case by simp
next
  case (Cons a as)
  show ?case
  proof (cases "arc_body fsolve i a s")
    case (Inl e)
    with Cons.prems show ?thesis by simp
  next
    case (Inr s1)
    then have eq: "arc_states fsolve i (a # as) s = s1 # arc_states fsolve (Suc i) as s1" by simp
    show ?thesis
    proof (cases k)
      case 0
      have ne: "arc_states fsolve (Suc i) as s1 \<noteq> []" using Cons.prems eq 0 by auto
      have "starting_point (hd (arc_states fsolve (Suc i) as s1)) = ending_point s1"
        by (rule arc_states_hd_start [OF _ ne]) simp
      with ne 0 eq show ?thesis by (simp add: hd_conv_nth)
    next
      case (Suc k')
      with Cons.prems eq have "Suc k' < length (arc_states fsolve (Suc i) as s1)" by simp
      from Cons.IH [OF this] Suc eq show ?thesis by simp
    qed
  qed
qed

lemma arc_states_last:
  "data \<noteq> [] \<Longrightarrow> last (arc_states fsolve i data s) = left_by (arcs_loop fsolve i data s)"
proof (induction data arbitrary: i s)
  case Nil
  then show ?case by simp
next
  case (Cons a as)
  show ?case
  proof (cases "arc_body fsolve i a s")
    case (Inl e)
    then show ?thesis by (simp add: left_by_def)
  next
    case (Inr s1)
    show ?thesis
    proof (cases as)
      case Nil
      with Inr show ?thesis by simp
    next
      case (Cons b bs)
      then have "as \<noteq> []" by simp
      from Cons.IH [OF this, of "Suc i" s1] Inr Cons show ?thesis
        by (simp split: sum.splits)
    qed
  qed
qed

text \<open>
  C2. In one call of \<^verbatim>\<open>draw_arcs\<close>, the starting point of every arc after the first is the
  ending point the arc before it has stored: the same value, assigned and not computed
  again.
\<close>

theorem next_arc_starts_at_previous_end:
  assumes "Suc k < length (arc_states fsolve 0 data s)"
  shows "starting_point (arc_states fsolve 0 data s ! Suc k)
           = ending_point (arc_states fsolve 0 data s ! k)"
  using assms by (rule arc_states_chain)

theorem next_arc_starts_at_previous_end_witness:
  "Suc 0 < length (arc_states (\<lambda>f g. g) 0 [(1 / 2, 1 / 100), (1 / 2, - (1 / 50))] init)
   \<and> starting_point (arc_states (\<lambda>f g. g) 0 [(1 / 2, 1 / 100), (1 / 2, - (1 / 50))] init ! Suc 0)
       = ending_point (arc_states (\<lambda>f g. g) 0 [(1 / 2, 1 / 100), (1 / 2, - (1 / 50))] init ! 0)"
proof -
  have h1: "snd (1 / 2 :: real, 1 / 100 :: real) \<noteq> 0" by simp
  have h2: "(0::nat) = 0 \<or> (radius init \<noteq> None \<and> ending_point init \<noteq> None)" by simp
  obtain s1 where s1: "arc_body (\<lambda>f g. g) 0 (1 / 2, 1 / 100) init = Inr s1"
    using arc_body_ok [OF h1 h2, of "\<lambda>f g. g"] by blast
  have len: "Suc 0 < length (arc_states (\<lambda>f g. g) 0 [(1 / 2, 1 / 100), (1 / 2, - (1 / 50))] init)"
    using s1 by (simp split: sum.splits)
  from next_arc_starts_at_previous_end [OF len] len show ?thesis by blast
qed

subsection \<open>A radius of zero\<close>

lemma arcs_loop_ok:
  assumes "\<forall>a\<in>set pre. snd a \<noteq> 0"
      and "i = 0 \<or> (radius s \<noteq> None \<and> ending_point s \<noteq> None)"
  shows "\<exists>t. arcs_loop fsolve i pre s = Inr t
            \<and> length (drawn (image t)) = length (drawn (image s)) + length pre
            \<and> take (length (drawn (image s))) (drawn (image t)) = drawn (image s)
            \<and> outputs t = outputs s
            \<and> (i + length pre = 0 \<or> (radius t \<noteq> None \<and> ending_point t \<noteq> None))"
  using assms
proof (induction pre arbitrary: i s)
  case Nil
  then show ?case by simp
next
  case (Cons a as)
  from Cons.prems have a: "snd a \<noteq> 0" and as: "\<forall>a\<in>set as. snd a \<noteq> 0" by simp_all
  obtain s1 where s1: "arc_body fsolve i a s = Inr s1"
      "radius s1 = Some \<bar>snd a * scale\<bar>" "\<exists>p. ending_point s1 = Some p"
      "outputs s1 = outputs s" "\<exists>c. drawn (image s1) = drawn (image s) @ [c]"
    using arc_body_ok [OF a Cons.prems(2), of fsolve] by blast
  have pre1: "Suc i = 0 \<or> (radius s1 \<noteq> None \<and> ending_point s1 \<noteq> None)"
    using s1 by auto
  obtain t where t: "arcs_loop fsolve (Suc i) as s1 = Inr t"
      "length (drawn (image t)) = length (drawn (image s1)) + length as"
      "take (length (drawn (image s1))) (drawn (image t)) = drawn (image s1)"
      "outputs t = outputs s1"
      "Suc i + length as = 0 \<or> (radius t \<noteq> None \<and> ending_point t \<noteq> None)"
    using Cons.IH [OF as pre1] by blast
  obtain c where c: "drawn (image s1) = drawn (image s) @ [c]" using s1(5) by blast
  have "take (length (drawn (image s))) (drawn (image t)) = drawn (image s)"
  proof -
    have "take (length (drawn (image s))) (take (length (drawn (image s1))) (drawn (image t)))
            = drawn (image s)"
      unfolding t(3) by (simp add: c)
    then show ?thesis by (simp add: c min_def)
  qed
  with s1 t c show ?case by simp
qed

lemma arcs_loop_append:
  "arcs_loop fsolve i (xs @ ys) s =
     (case arcs_loop fsolve i xs s of
        Inl e \<Rightarrow> Inl e
      | Inr t \<Rightarrow> arcs_loop fsolve (i + length xs) ys t)"
  by (induction xs arbitrary: i s) (simp_all split: sum.splits)

lemma zero_radius_at:
  assumes "\<forall>a\<in>set pre. snd a \<noteq> 0"
  shows "\<exists>s' t. draw_arcs fsolve (pre @ (len, 0) # post) s = Inl (ZeroDivisionError, s')
           \<and> arcs_loop fsolve 0 pre s = Inr t
           \<and> drawn (image s') = drawn (image t)
           \<and> length (drawn (image s')) = length (drawn (image s)) + length pre
           \<and> take (length (drawn (image s))) (drawn (image s')) = drawn (image s)
           \<and> outputs s' = outputs s"
proof -
  obtain t where t: "arcs_loop fsolve 0 pre s = Inr t"
      "length (drawn (image t)) = length (drawn (image s)) + length pre"
      "take (length (drawn (image s))) (drawn (image t)) = drawn (image s)"
      "outputs t = outputs s"
      "0 + length pre = 0 \<or> (radius t \<noteq> None \<and> ending_point t \<noteq> None)"
    using arcs_loop_ok [OF assms, of 0 s fsolve] by blast
  obtain s' where s': "arc_body fsolve (0 + length pre) (len, 0) t = Inl (ZeroDivisionError, s')"
      "image s' = image t" "outputs s' = outputs t"
    using arc_body_zero [of "(len, 0)" "0 + length pre" t fsolve] t(5) by auto
  have "draw_arcs fsolve (pre @ (len, 0) # post) s = Inl (ZeroDivisionError, s')"
    using t(1) s'(1) by (simp add: draw_arcs_def arcs_loop_append)
  with t s' show ?thesis by simp
qed

text \<open>
  C5. A call of \<^verbatim>\<open>draw_arcs\<close> on a list with an arc of radius 0 raises
  \<^verbatim>\<open>ZeroDivisionError\<close>, at the first such arc: the arcs before it are drawn, as the loop
  draws them alone, and nothing else is; the image is neither saved nor shown.
\<close>

theorem zero_radius_raises:
  assumes "a \<in> set data" and "snd a = 0"
  shows "\<exists>s' pre len post t.
           data = pre @ (len, 0) # post \<and> (\<forall>b\<in>set pre. snd b \<noteq> 0)
         \<and> draw_arcs fsolve data s = Inl (ZeroDivisionError, s')
         \<and> arcs_loop fsolve 0 pre s = Inr t
         \<and> drawn (image s') = drawn (image t)
         \<and> length (drawn (image s')) = length (drawn (image s)) + length pre
         \<and> take (length (drawn (image s))) (drawn (image s')) = drawn (image s)
         \<and> outputs s' = outputs s"
proof -
  from assms have "\<exists>x\<in>set data. snd x = 0" by blast
  from split_list_first_prop [OF this]
  obtain pre x post where d: "data = pre @ x # post" "snd x = 0" "\<forall>b\<in>set pre. \<not> snd b = 0"
    by blast
  then have x: "x = (fst x, 0)" by (cases x) simp
  from zero_radius_at [OF d(3), of fsolve "fst x" post s] d(1,3) x
  show ?thesis by metis
qed

theorem zero_radius_raises_witness:
  "(1 / 2, 0) \<in> set [(1 / 2, 1 / 100), (1 / 2 :: real, 0 :: real), (1 / 2, 1 / 50)]
   \<and> snd (1 / 2 :: real, 0 :: real) = 0
   \<and> (\<exists>s'. draw_arcs (\<lambda>f g. g) [(1 / 2, 1 / 100), (1 / 2, 0), (1 / 2, 1 / 50)] init
               = Inl (ZeroDivisionError, s')
          \<and> length (drawn (image s')) = 1 \<and> outputs s' = [])"
proof -
  have h1: "(1 / 2, 0) \<in> set [(1 / 2, 1 / 100), (1 / 2 :: real, 0 :: real), (1 / 2, 1 / 50)]" by simp
  have h2: "snd (1 / 2 :: real, 0 :: real) = 0" by simp
  obtain s' pre len post where r:
      "[(1 / 2, 1 / 100), (1 / 2 :: real, 0 :: real), (1 / 2, 1 / 50)] = pre @ (len, 0) # post"
      "\<forall>b\<in>set pre. snd b \<noteq> 0"
      "draw_arcs (\<lambda>f g. g) [(1 / 2, 1 / 100), (1 / 2, 0), (1 / 2, 1 / 50)] init = Inl (ZeroDivisionError, s')"
      "length (drawn (image s')) = length (drawn (image init)) + length pre"
      "outputs s' = outputs init"
    using zero_radius_raises [OF h1 h2, of "\<lambda>f g. g" init] by blast
  have "pre = [(1 / 2, 1 / 100)]"
  proof (cases pre)
    case Nil
    with r(1) show ?thesis by simp
  next
    case (Cons p ps)
    with r(1) have p: "p = (1 / 2, 1 / 100)" and rest: "[(1 / 2 :: real, 0 :: real), (1 / 2, 1 / 50)] = ps @ (len, 0) # post"
      by simp_all
    show ?thesis
    proof (cases ps)
      case Nil
      with Cons p show ?thesis by simp
    next
      case (Cons q qs)
      with rest have "q = (1 / 2, 0)" by simp
      with r(2) \<open>pre = p # ps\<close> Cons show ?thesis by simp
    qed
  qed
  moreover have "outputs init = []" by (simp add: init_def Let_def)
  ultimately show ?thesis
    using r(3,4,5) h1 h2 by (simp add: drawn_init)
qed

subsection \<open>The reset\<close>

lemma arcs_loop_img_size:
  "img_size (image (left_by (arcs_loop fsolve i data s))) = img_size (image s)"
proof (induction data arbitrary: i s)
  case Nil
  then show ?case by simp
next
  case (Cons a as)
  show ?case
  proof (cases "arc_body fsolve i a s")
    case (Inl e)
    with arc_body_img_size [of fsolve i a s] show ?thesis by simp
  next
    case (Inr s1)
    with arc_body_img_size [of fsolve i a s] Cons.IH [of "Suc i" s1] show ?thesis by simp
  qed
qed

lemma draw_arcs_img_size:
  assumes "img_size (image s) = (image_size * size_multiplier, image_size * size_multiplier)"
  shows "img_size (image (left_by (draw_arcs fsolve data s)))
           = (image_size * size_multiplier, image_size * size_multiplier)"
proof (cases "arcs_loop fsolve 0 data s")
  case (Inl e)
  with arcs_loop_img_size [of fsolve 0 data s] assms show ?thesis
    by (simp add: draw_arcs_def)
next
  case (Inr s1)
  then show ?thesis by (simp add: draw_arcs_def Let_def resize_def)
qed

lemma reset_center:
  assumes "img_size (image s) = (image_size * size_multiplier, image_size * size_multiplier)"
  shows "circle_center (reset_image_coordinates s) = (1500, 1500)"
  using assms by (simp add: reset_image_coordinates_def image_size_def size_multiplier_def)

lemma reset_init: "reset_image_coordinates init = init"
  by (simp add: reset_image_coordinates_def init_def Let_def image_new_def)

text \<open>
  C6. The reset puts the chain's centre at the centre of the canvas, \<open>(1500, 1500)\<close> on a
  canvas of the session's size. Take a session whose chain centre is there, a fresh one or
  one just reset, call \<^verbatim>\<open>draw_arcs\<close>, reset whatever that call has left behind, returned or
  raised, and make the same call again: the first arcs of the two calls have the same
  centre, the canvas centre, and the same starting point, the radius to the left of it.
\<close>

theorem reset_restarts_chain:
  assumes "img_size (image s0) = (image_size * size_multiplier, image_size * size_multiplier)"
      and "circle_center s0 = (1500, 1500)"
  shows "circle_center (reset_image_coordinates s0) = (1500, 1500)
       \<and> circle_center init = (1500, 1500)
       \<and> (let s1 = left_by (draw_arcs fsolve (a # data) s0);
               first = hd (arc_states fsolve 0 (a # data) s0);
               second = hd (arc_states fsolve 0 (a # data) (reset_image_coordinates s1))
           in circle_center (reset_image_coordinates s1) = (1500, 1500)
            \<and> circle_center first = (1500, 1500)
            \<and> starting_point first = Some (1500 - \<bar>snd a * scale\<bar>, 1500)
            \<and> circle_center second = circle_center first
            \<and> starting_point second = starting_point first)"
proof -
  let ?s1 = "left_by (draw_arcs fsolve (a # data) s0)"
  have c0: "circle_center (reset_image_coordinates s0) = (1500, 1500)"
    using assms(1) by (rule reset_center)
  have "img_size (image ?s1) = (image_size * size_multiplier, image_size * size_multiplier)"
    using assms(1) by (rule draw_arcs_img_size)
  then have c1: "circle_center (reset_image_coordinates ?s1) = (1500, 1500)"
    by (rule reset_center)
  have hd: "hd (arc_states fsolve 0 (a # data) t) = left_by (arc_body fsolve 0 a t)" for t
    by (simp only: arc_states_Cons list.sel)
  show ?thesis
    using c0 c1 assms(2) circle_center_init arc_body_first [of fsolve a s0]
      arc_body_first [of fsolve a "reset_image_coordinates ?s1"]
    unfolding Let_def hd by simp
qed

theorem reset_restarts_chain_witness:
  "img_size (image init) = (image_size * size_multiplier, image_size * size_multiplier)
   \<and> circle_center init = (1500, 1500)
   \<and> (let s1 = left_by (draw_arcs (\<lambda>f g. g) [(1 / 2, 1 / 100), (1 / 2, - (1 / 50))] init);
           first = hd (arc_states (\<lambda>f g. g) 0 [(1 / 2, 1 / 100), (1 / 2, - (1 / 50))] init);
           second = hd (arc_states (\<lambda>f g. g) 0 [(1 / 2, 1 / 100), (1 / 2, - (1 / 50))] (reset_image_coordinates s1))
       in circle_center (reset_image_coordinates s1) = (1500, 1500)
        \<and> circle_center first = (1500, 1500)
        \<and> starting_point first = Some (1490, 1500)
        \<and> circle_center second = circle_center first
        \<and> starting_point second = starting_point first)"
proof -
  have h: "img_size (image init) = (image_size * size_multiplier, image_size * size_multiplier)"
    by (simp add: init_def Let_def image_new_def)
  have v: "1500 - \<bar>snd (1 / 2 :: real, 1 / 100 :: real) * scale\<bar> = 1490" by (simp add: scale_def)
  from reset_restarts_chain [OF h circle_center_init, of "\<lambda>f g. g" "(1 / 2, 1 / 100)" "[(1 / 2, - (1 / 50))]"] h
  show ?thesis unfolding v by blast
qed

subsection \<open>The residuals given to the solver\<close>

lemma sq_dist: "(distance p q)\<^sup>2 = (fst p - fst q)\<^sup>2 + (snd p - snd q)\<^sup>2"
  by (simp add: distance_def)

lemma distance_commute: "distance p q = distance q p"
  by (simp add: distance_def power2_commute)

lemma distance_nonneg: "0 \<le> distance p q"
  by (simp add: distance_def)

lemma residual_pair:
  assumes "prev_circle_center s = Some c" "prev_radius s = Some pr" "radius s = Some r"
      and "starting_point s = Some b"
  shows "find_new_circle_center s xy =
           Inr ((distance xy c)\<^sup>2 - (if same_direction_as_previous s then pr - r else pr + r)\<^sup>2,
                (distance xy b)\<^sup>2 - r\<^sup>2)"
  unfolding find_new_circle_center_total [OF assms] sq_dist
  by (simp add: power2_eq_square algebra_simps)

text \<open>
  C1. When an arc \<open>a\<close> follows a drawn arc \<open>a0\<close>, the function given to the solver
  returns, at every point \<open>C\<close>, the squared distance from \<open>C\<close> to the previous centre minus
  \<open>OO_value\<close> squared, and the squared distance from \<open>C\<close> to the starting point \<open>B\<close> minus
  the radius squared, where \<open>OO_value\<close> is the previous radius minus the radius when the two
  arcs turn the same way and their sum otherwise. At a point where both are zero, the
  distance to the previous centre is the absolute difference of the radii, or their sum,
  and the distance to \<open>B\<close> is the radius.
\<close>

theorem residuals_are_squared_distances:
  assumes "snd a0 \<noteq> 0" and "i = 0 \<or> (radius s0 \<noteq> None \<and> ending_point s0 \<noteq> None)"
  shows "\<exists>s B s1 Rprev Rcur same OO_value.
           arc_body fsolve i a0 s0 = Inr s
         \<and> ending_point s = Some B
         \<and> s1 = (read_arc a s)\<lparr>starting_point := ending_point s\<rparr>
         \<and> locate_start fsolve (Suc i) (read_arc a s) =
             Inr (s1\<lparr>circle_center := fsolve (residuals s1) (0, 0)\<rparr>)
         \<and> Rprev = \<bar>snd a0 * scale\<bar> \<and> Rcur = \<bar>snd a * scale\<bar>
         \<and> same = ((snd a < 0) = (snd a0 < 0))
         \<and> OO_value = (if same then Rprev - Rcur else Rprev + Rcur)
         \<and> (\<forall>C. find_new_circle_center s1 C =
                   Inr ((distance C (circle_center s))\<^sup>2 - OO_value\<^sup>2, (distance C B)\<^sup>2 - Rcur\<^sup>2)
               \<and> residuals s1 C =
                   ((distance C (circle_center s))\<^sup>2 - OO_value\<^sup>2, (distance C B)\<^sup>2 - Rcur\<^sup>2)
               \<and> (residuals s1 C = (0, 0) \<longrightarrow>
                    distance (circle_center s) C = (if same then \<bar>Rprev - Rcur\<bar> else Rprev + Rcur)
                  \<and> distance B C = Rcur))"
proof -
  obtain s B where s: "arc_body fsolve i a0 s0 = Inr s" "ending_point s = Some B"
      "radius s = Some \<bar>snd a0 * scale\<bar>" "prev_was_negative_radius s = (snd a0 < 0)"
    using arc_body_ok [OF assms, of fsolve] by blast
  let ?s1 = "(read_arc a s)\<lparr>starting_point := ending_point s\<rparr>"
  let ?Rprev = "\<bar>snd a0 * scale\<bar>" and ?Rcur = "\<bar>snd a * scale\<bar>"
  let ?same = "(snd a < 0) = (snd a0 < 0)"
  let ?OO = "if ?same then ?Rprev - ?Rcur else ?Rprev + ?Rcur"
  have loc: "locate_start fsolve (Suc i) (read_arc a s) =
             Inr (?s1\<lparr>circle_center := fsolve (residuals ?s1) (0, 0)\<rparr>)"
    using locate_start_later [of "Suc i" s "\<bar>snd a0 * scale\<bar>" B fsolve a] s by simp
  have same: "same_direction_as_previous ?s1 = ?same"
    using s(4) by (auto simp: read_arc_fields neg_scaled)
  have fn: "find_new_circle_center ?s1 C =
              Inr ((distance C (circle_center s))\<^sup>2 - ?OO\<^sup>2, (distance C B)\<^sup>2 - ?Rcur\<^sup>2)" for C
    using residual_pair [of ?s1 "circle_center s" ?Rprev ?Rcur B C] s same
    by (simp add: read_arc_fields)
  have res: "residuals ?s1 C =
              ((distance C (circle_center s))\<^sup>2 - ?OO\<^sup>2, (distance C B)\<^sup>2 - ?Rcur\<^sup>2)" for C
    by (simp only: residuals_def fn sum.case)
  have root: "distance (circle_center s) C = (if ?same then \<bar>?Rprev - ?Rcur\<bar> else ?Rprev + ?Rcur)
                \<and> distance B C = ?Rcur" if "residuals ?s1 C = (0, 0)" for C
  proof -
    from that res [of C] have d1: "(distance (circle_center s) C)\<^sup>2 = ?OO\<^sup>2"
      and d2: "(distance B C)\<^sup>2 = ?Rcur\<^sup>2"
      by (simp_all add: distance_commute)
    from d1 have "distance (circle_center s) C = \<bar>?OO\<bar>"
      using distance_nonneg [of "circle_center s" C] by (metis power2_eq_iff_nonneg abs_ge_zero power2_abs)
    moreover from d2 have "distance B C = ?Rcur"
      using distance_nonneg [of B C] by (metis abs_ge_zero power2_eq_iff_nonneg)
    ultimately show ?thesis by (simp split: if_splits)
  qed
  show ?thesis
    apply (rule exI [of _ s], rule exI [of _ B], rule exI [of _ ?s1])
    apply (rule exI [of _ ?Rprev], rule exI [of _ ?Rcur], rule exI [of _ ?same], rule exI [of _ ?OO])
    apply (intro conjI allI impI)
    apply (rule s(1))
    apply (rule s(2))
    apply (rule refl)
    apply (rule loc)
    apply (rule refl)
    apply (rule refl)
    apply (rule refl)
    apply (rule refl)
    apply (rule fn)
    apply (rule res)
    using root apply blast
    using root apply blast
    done
qed

theorem residuals_are_squared_distances_witness:
  "snd (0 :: real, 1 / 100 :: real) \<noteq> 0
   \<and> ((0::nat) = 0 \<or> (radius init \<noteq> None \<and> ending_point init \<noteq> None))
   \<and> (\<exists>s. arc_body (\<lambda>f g. g) 0 (0, 1 / 100) init = Inr s
         \<and> circle_center s = (1500, 1500) \<and> ending_point s = Some (1490, 1500)
         \<and> residuals ((read_arc (1 / 2, 1 / 200) s)\<lparr>starting_point := ending_point s\<rparr>) (1495, 1500) = (0, 0)
         \<and> distance (circle_center s) (1495, 1500) = 5
         \<and> distance (1490, 1500) (1495, 1500) = 5)"
proof -
  have h1: "snd (0 :: real, 1 / 100 :: real) \<noteq> 0" by simp
  have h2: "(0::nat) = 0 \<or> (radius init \<noteq> None \<and> ending_point init \<noteq> None)" by simp
  obtain s B s1 Rprev Rcur same OO_value where r:
      "arc_body (\<lambda>f g. g) 0 (0, 1 / 100) init = Inr s"
      "ending_point s = Some B"
      "s1 = (read_arc (1 / 2, 1 / 200) s)\<lparr>starting_point := ending_point s\<rparr>"
      "Rprev = \<bar>snd (0 :: real, 1 / 100 :: real) * scale\<bar>"
      "Rcur = \<bar>snd (1 / 2 :: real, 1 / 200 :: real) * scale\<bar>"
      "same = ((snd (1 / 2 :: real, 1 / 200 :: real) < 0) = (snd (0 :: real, 1 / 100 :: real) < 0))"
      "OO_value = (if same then Rprev - Rcur else Rprev + Rcur)"
      and all: "\<forall>C. find_new_circle_center s1 C =
                   Inr ((distance C (circle_center s))\<^sup>2 - OO_value\<^sup>2, (distance C B)\<^sup>2 - Rcur\<^sup>2)
               \<and> residuals s1 C =
                   ((distance C (circle_center s))\<^sup>2 - OO_value\<^sup>2, (distance C B)\<^sup>2 - Rcur\<^sup>2)
               \<and> (residuals s1 C = (0, 0) \<longrightarrow>
                    distance (circle_center s) C = (if same then \<bar>Rprev - Rcur\<bar> else Rprev + Rcur)
                  \<and> distance B C = Rcur)"
    using residuals_are_squared_distances [OF h1 h2, of "\<lambda>f g. g" "(1 / 2, 1 / 200)"] by blast
  obtain t where t: "arc_body (\<lambda>f g. g) 0 (0, 1 / 100) init = Inr t"
      "circle_center t = (1500, 1500)" "ending_point t = Some (1490, 1500)"
    using first_arc_of_length_zero [of "\<lambda>f g. g"] by blast
  from r(1) t(1) have ts: "t = s" by simp
  have B: "B = (1490, 1500)" and c: "circle_center s = (1500, 1500)"
    using t(2,3) r(2) unfolding ts by simp_all
  have vals: "Rprev = 10" "Rcur = 5" "same" "OO_value = 5"
    using r(4-7) by (simp_all add: scale_def)
  from all have res: "residuals s1 (1495, 1500) =
      ((distance (1495, 1500) (circle_center s))\<^sup>2 - OO_value\<^sup>2, (distance (1495, 1500) B)\<^sup>2 - Rcur\<^sup>2)"
    and imp: "residuals s1 (1495, 1500) = (0, 0) \<Longrightarrow>
        distance (circle_center s) (1495, 1500) = (if same then \<bar>Rprev - Rcur\<bar> else Rprev + Rcur)
      \<and> distance B (1495, 1500) = Rcur"
    by blast+
  have root: "residuals s1 (1495, 1500) = (0, 0)"
    unfolding res B c using vals by (simp add: sq_dist)
  from imp [OF root] have d: "distance (circle_center s) (1495, 1500) = 5" "distance B (1495, 1500) = 5"
    using vals by simp_all
  show ?thesis
    apply (intro conjI h1 h2)
    apply (rule exI [of _ s])
    using r(1) c r(2) root d unfolding B r(3) [symmetric]
    apply simp
    done
qed

subsection \<open>A chain of one arc on a fresh session\<close>

lemma sin_coeff_vals:
  "sin_coeff (Suc 0) = 1"
  "sin_coeff 2 = 0" "sin_coeff 3 = - 1 / 6" "sin_coeff 4 = 0"
  "sin_coeff 5 = 1 / 120" "sin_coeff 6 = 0" "sin_coeff 7 = - 1 / 5040" "sin_coeff 8 = 0"
  "sin_coeff 9 = 1 / 362880" "sin_coeff 10 = 0" "sin_coeff 11 = - 1 / 39916800" "sin_coeff 12 = 0"
  "sin_coeff 13 = 1 / 6227020800" "sin_coeff 14 = 0" "sin_coeff 15 = - 1 / 1307674368000"
  by (simp_all add: sin_coeff_def fact_numeral)

lemma sin_sum16:
  "(\<Sum>m<16. sin_coeff m * x ^ m) =
     x - x ^ 3 / 6 + x ^ 5 / 120 - x ^ 7 / 5040 + x ^ 9 / 362880 - x ^ 11 / 39916800
       + x ^ 13 / 6227020800 - x ^ 15 / 1307674368000" for x :: real
  by (simp add: lessThan_nat_numeral sin_coeff_vals)

lemma sin_near_pi_bound:
  "\<bar>sin x - (x - x ^ 3 / 6 + x ^ 5 / 120 - x ^ 7 / 5040 + x ^ 9 / 362880 - x ^ 11 / 39916800
       + x ^ 13 / 6227020800 - x ^ 15 / 1307674368000)\<bar> \<le> inverse (fact 16) * \<bar>x\<bar> ^ 16"
  for x :: real
  using Maclaurin_sin_bound [of x 16] by (simp only: sin_sum16)

lemma sin_low: "0 < sin (6283 / 2000 :: real)"
proof -
  have "inverse (fact 16) * \<bar>6283 / 2000 :: real\<bar> ^ 16
          < 6283 / 2000 - (6283 / 2000) ^ 3 / 6 + (6283 / 2000) ^ 5 / 120 - (6283 / 2000) ^ 7 / 5040
            + (6283 / 2000) ^ 9 / 362880 - (6283 / 2000) ^ 11 / 39916800
            + (6283 / 2000) ^ 13 / 6227020800 - (6283 / 2000) ^ 15 / 1307674368000"
    by (simp add: fact_numeral power_divide)
  with sin_near_pi_bound [of "6283 / 2000"] show ?thesis by linarith
qed

lemma sin_high: "sin (1571 / 500 :: real) < 0"
proof -
  have "1571 / 500 - (1571 / 500) ^ 3 / 6 + (1571 / 500) ^ 5 / 120 - (1571 / 500) ^ 7 / 5040
            + (1571 / 500) ^ 9 / 362880 - (1571 / 500) ^ 11 / 39916800
            + (1571 / 500) ^ 13 / 6227020800 - (1571 / 500) ^ 15 / 1307674368000
          < - (inverse (fact 16) * \<bar>1571 / 500 :: real\<bar> ^ 16)"
    by (simp add: fact_numeral power_divide)
  with sin_near_pi_bound [of "1571 / 500"] show ?thesis by linarith
qed

lemma pi_lower: "6283 / 2000 < pi"
proof (rule ccontr)
  assume "\<not> 6283 / 2000 < pi"
  then have "pi \<le> 6283 / 2000" by simp
  moreover have "(6283 / 2000 :: real) < 2 * pi" using pi_ge_two by simp
  ultimately have "sin (6283 / 2000 :: real) \<le> 0" by (rule sin_le_zero)
  with sin_low show False by simp
qed

lemma pi_upper: "pi < 1571 / 500"
proof (rule ccontr)
  assume "\<not> pi < 1571 / 500"
  then have "(1571 / 500 :: real) \<le> pi" by simp
  then have "0 \<le> sin (1571 / 500 :: real)" by (intro sin_ge_zero) simp_all
  with sin_high show False by simp
qed

lemma span_value: "\<lfloor>9000 / pi\<rfloor> = 2864"
proof -
  have "2864 * pi \<le> 9000" using pi_upper by simp
  moreover have "9000 < 2865 * pi" using pi_lower by simp
  ultimately have "2864 \<le> 9000 / pi" "9000 / pi < 2865"
    by (simp_all add: field_simps)
  then show ?thesis by linarith
qed

lemma draw_arcs_single:
  "draw_arcs fsolve [a] s = draw_arcs fsolve' [a] s"
  by (simp add: draw_arcs_def arc_body_first_eq split: sum.splits)

text \<open>
  C8. On a fresh session the chain \<open>[(0.5, 0.01)]\<close> is drawn whatever the solver is: the
  arc starts at \<open>(1490, 1500)\<close>, on the circle of radius 10 around \<open>(1500, 1500)\<close>, its
  starting angle is 180 degrees, the span is \<open>\<lfloor>180 * 500 / (\<pi> * 10)\<rfloor> = 2864\<close>, and the
  drawing command gets the angles 180 and 3044.
\<close>

theorem single_arc_scenario:
  "\<exists>s'. draw_arcs fsolve [(1 / 2, 1 / 100)] init = Inr s'
       \<and> draw_arcs fsolve' [(1 / 2, 1 / 100)] init = Inr s'
       \<and> circle_center s' = (1500, 1500)
       \<and> starting_point s' = Some (1490, 1500)
       \<and> l s' = Some 500 \<and> radius s' = Some 10
       \<and> py_round (degrees (atan2 (1500 - 1500) (1490 - 1500))) = 180
       \<and> \<lfloor>180 * 500 / (pi * 10)\<rfloor> = 2864
       \<and> drawn (image s') = [Arc [1490, 1490, 1510, 1510] 180 3044 (0, 0, 153) 6]"
proof -
  have h1: "snd (1 / 2 :: real, 1 / 100 :: real) \<noteq> 0" by simp
  have h2: "(0::nat) = 0 \<or> (radius init \<noteq> None \<and> ending_point init \<noteq> None)" by simp
  obtain s1 sp where s1: "arc_body fsolve 0 (1 / 2, 1 / 100) init = Inr s1"
     "starting_point s1 = Some sp"
     "if (0::nat) = 0 then sp = (fst (circle_center init) - \<bar>snd (1 / 2 :: real, 1 / 100 :: real) * scale\<bar>, snd (circle_center init))
                           \<and> circle_center s1 = circle_center init
               else ending_point init = Some sp"
     "radius s1 = Some \<bar>snd (1 / 2 :: real, 1 / 100 :: real) * scale\<bar>"
     "l s1 = Some (fst (1 / 2 :: real, 1 / 100 :: real) * scale)"
     "drawn (image s1) = drawn (image init) @
               [Arc (find_pie_coordinates \<bar>snd (1 / 2 :: real, 1 / 100 :: real) * scale\<bar> (circle_center s1))
                  (if snd (1 / 2 :: real, 1 / 100 :: real) < 0
                   then of_int (py_round (degrees (atan2 (snd sp - snd (circle_center s1)) (fst sp - fst (circle_center s1)))))
                          - of_int \<lfloor>(180 * (fst (1 / 2 :: real, 1 / 100 :: real) * scale)) / (pi * \<bar>snd (1 / 2 :: real, 1 / 100 :: real) * scale\<bar>)\<rfloor>
                   else of_int (py_round (degrees (atan2 (snd sp - snd (circle_center s1)) (fst sp - fst (circle_center s1))))))
                  (if snd (1 / 2 :: real, 1 / 100 :: real) < 0
                   then of_int (py_round (degrees (atan2 (snd sp - snd (circle_center s1)) (fst sp - fst (circle_center s1)))))
                   else of_int \<lfloor>(180 * (fst (1 / 2 :: real, 1 / 100 :: real) * scale)) / (pi * \<bar>snd (1 / 2 :: real, 1 / 100 :: real) * scale\<bar>)\<rfloor>
                          + of_int (py_round (degrees (atan2 (snd sp - snd (circle_center s1)) (fst sp - fst (circle_center s1))))))
                  (colors ! (0 mod length colors)) drawing_line_width]"
    using arc_body_ok [OF h1 h2, of fsolve] by blast
  have sp: "sp = (1490, 1500)" and c1: "circle_center s1 = (1500, 1500)"
    using s1(3) by (simp_all add: circle_center_init scale_def)
  have r1: "radius s1 = Some 10" and l1: "l s1 = Some 500"
    using s1(4,5) by (simp_all add: scale_def)
  have ang: "py_round (degrees (atan2 (1500 - 1500) (1490 - 1500))) = 180"
    by (simp add: atan2_left start_angle_180)
  have span: "\<lfloor>180 * 500 / (pi * 10)\<rfloor> = 2864"
    using span_value by simp
  have d1: "drawn (image s1) = [Arc [1490, 1490, 1510, 1510] 180 3044 (0, 0, 153) 6]"
    unfolding s1(6) sp c1 using ang span
    by (simp add: drawn_init find_pie_coordinates_def scale_def colors_def drawing_line_width_def)
  let ?im = "resize (image s1) (image_size * size_multiplier, image_size * size_multiplier)"
  let ?s' = "s1\<lparr>image := ?im, outputs := outputs s1 @ [Saved ''drawn_arcs.png'' ?im, Shown ?im]\<rparr>"
  have run: "draw_arcs fsolve [(1 / 2, 1 / 100)] init = Inr ?s'"
    using s1(1) by (simp add: draw_arcs_def Let_def)
  then have run': "draw_arcs fsolve' [(1 / 2, 1 / 100)] init = Inr ?s'"
    using draw_arcs_single [of fsolve' "(1 / 2, 1 / 100)" init fsolve] by simp
  show ?thesis
    apply (rule exI [of _ ?s'])
    apply (intro conjI)
    apply (rule run)
    apply (rule run')
    apply (simp add: c1)
    apply (simp add: s1(2) sp)
    apply (simp add: l1)
    apply (simp add: r1)
    apply (rule ang)
    apply (rule span)
    apply (simp add: d1 resize_def)
    done
qed

end
